theory Spec2Isabelle
  imports Main "HOL-Library.Sublist" "HOL-Library.Char_ord" "HOL-Library.List_Lexorder"
begin

section \<open>Strings and paths as \<^verbatim>\<open>run.py\<close> uses them\<close>

text \<open>
  Python's \<^verbatim>\<open>str\<close> is modelled as \<^typ>\<open>string\<close>. \<^verbatim>\<open>s.split(c)\<close> for a
  one-character separator returns the pieces between the occurrences of \<open>c\<close>; the result
  is never empty, so \<^verbatim>\<open>[-1]\<close> and \<^verbatim>\<open>[0]\<close> never raise.
\<close>

fun split_char :: "char \<Rightarrow> string \<Rightarrow> string list" where
  "split_char c [] = [[]]"
| "split_char c (x # xs) =
     (if x = c then [] # split_char c xs
      else (case split_char c xs of
              [] \<Rightarrow> [[x]]
            | piece # pieces \<Rightarrow> (x # piece) # pieces))"

text \<open>
  \<^verbatim>\<open>s.split(sep)[0]\<close> for a non-empty separator: the part of \<open>s\<close> before the
  first occurrence of \<open>sep\<close>, all of \<open>s\<close> when \<open>sep\<close> does not occur.
\<close>

fun split_first :: "string \<Rightarrow> string \<Rightarrow> string" where
  "split_first sep [] = []"
| "split_first sep (x # xs) =
     (if prefix sep (x # xs) then [] else x # split_first sep xs)"

text \<open>\<^verbatim>\<open>sep in s\<close>.\<close>

fun contains :: "string \<Rightarrow> string \<Rightarrow> bool" where
  "contains sep [] = (sep = [])"
| "contains sep (x # xs) = (if prefix sep (x # xs) then True else contains sep xs)"

text \<open>\<^verbatim>\<open>"%d" % n\<close> and \<^verbatim>\<open>str(n)\<close> for an integer.\<close>

function show_nat :: "nat \<Rightarrow> string" where
  "show_nat n =
     (if n < 10 then [''0123456789'' ! n]
      else show_nat (n div 10) @ [''0123456789'' ! (n mod 10)])"
  by pat_completeness auto
termination
  by (relation "measure id") auto

definition show_int :: "int \<Rightarrow> string" where
  "show_int i = (if i < 0 then CHR ''-'' # show_nat (nat (- i)) else show_nat (nat i))"

text \<open>\<^verbatim>\<open>" ".join(xs)\<close>.\<close>

fun join_space :: "string list \<Rightarrow> string" where
  "join_space [] = []"
| "join_space [x] = x"
| "join_space (x # y # ys) = x @ '' '' @ join_space (y # ys)"

text \<open>
  The \<^verbatim>\<open>repr\<close> of a list of strings, as \<^verbatim>\<open>print\<close> and \<^verbatim>\<open>%s\<close> show it. The
  escaping that \<^verbatim>\<open>repr\<close> applies to quotes, backslashes and unprintable characters
  is not modelled: the text is exact for names without them.
\<close>

fun join_comma :: "string list \<Rightarrow> string" where
  "join_comma [] = []"
| "join_comma [x] = x"
| "join_comma (x # y # ys) = x @ '', '' @ join_comma (y # ys)"

definition repr_list :: "string list \<Rightarrow> string" where
  "repr_list xs = ''['' @ join_comma (map (\<lambda>s. [CHR 0x27] @ s @ [CHR 0x27]) xs) @ '']''"

text \<open>
  \<^verbatim>\<open>os.path.join\<close> on POSIX for two components; the three-component call of the
  source is the two-component one applied twice, as in the library.
\<close>

definition os_path_join :: "string \<Rightarrow> string \<Rightarrow> string" where
  "os_path_join a b =
     (if prefix ''/'' b then b
      else if a = [] \<or> last a = CHR ''/'' then a @ b
      else a @ ''/'' @ b)"

text \<open>\<^verbatim>\<open>os.path.basename\<close>: what follows the last slash.\<close>

definition os_path_basename :: "string \<Rightarrow> string" where
  "os_path_basename p = last (split_char CHR ''/'' p)"

text \<open>
  \<^verbatim>\<open>os.path.split\<close>: the head is what precedes the last slash, without its trailing
  slashes unless it consists of slashes only.
\<close>

definition os_path_split :: "string \<Rightarrow> string \<times> string" where
  "os_path_split p =
     (let tail = rev (takeWhile (\<lambda>c. c \<noteq> CHR ''/'') (rev p));
          head = rev (dropWhile (\<lambda>c. c \<noteq> CHR ''/'') (rev p))
      in (if list_all (\<lambda>c. c = CHR ''/'') head then head
          else rev (dropWhile (\<lambda>c. c = CHR ''/'') (rev head)), tail))"

section \<open>The file system\<close>

text \<open>
  The file tree is the list of the paths present in it. A path exists when it is listed
  or when a listed path lies below it, so the directories above a file need not be listed.
  Paths are compared as written: the normalisation of \<^verbatim>\<open>..\<close> and of doubled slashes
  by the operating system is not modelled.
\<close>

definition path_exists :: "string list \<Rightarrow> string \<Rightarrow> bool" where
  "path_exists tree p = list_ex (\<lambda>q. q = p \<or> prefix (os_path_join p []) q) tree"

text \<open>\<^verbatim>\<open>os.listdir\<close>: the names directly below a directory, each once.\<close>

definition listdir :: "string list \<Rightarrow> string \<Rightarrow> string list" where
  "listdir tree d =
     remdups (filter (\<lambda>n. n \<noteq> [])
       (map (\<lambda>q. takeWhile (\<lambda>c. c \<noteq> CHR ''/'') (drop (length (os_path_join d [])) q))
         (filter (prefix (os_path_join d [])) tree)))"

text \<open>
  \<^verbatim>\<open>glob.has_magic\<close>: the text has one of the wildcard characters. \<open>fnmatch\<close> and
  \<open>glob\<close> below are those of the library for a path whose directory part has no
  wildcard and whose last component has no \<^verbatim>\<open>[\<close>; the statements that rest on them
  say so.
\<close>

definition has_magic :: "string \<Rightarrow> bool" where
  "has_magic s = list_ex (\<lambda>c. c = CHR ''*'' \<or> c = CHR ''?'' \<or> c = CHR ''['') s"

text \<open>
  \<^verbatim>\<open>fnmatch\<close> of a name against a pattern, with the wildcards \<^verbatim>\<open>*\<close> and \<^verbatim>\<open>?\<close>.
  Bracket expressions are not modelled: a \<^verbatim>\<open>[\<close> in the pattern stands for itself.
\<close>

fun fnmatch :: "string \<Rightarrow> string \<Rightarrow> bool" where
  "fnmatch [] [] = True"
| "fnmatch [] (c # cs) = False"
| "fnmatch (p # ps) [] = (if p = CHR ''*'' then fnmatch ps [] else False)"
| "fnmatch (p # ps) (c # cs) =
     (if p = CHR ''*'' then (if fnmatch ps (c # cs) then True else fnmatch (p # ps) cs)
      else if p = CHR ''?'' then fnmatch ps cs
      else if p = c then fnmatch ps cs else False)"

text \<open>
  \<^verbatim>\<open>glob.glob\<close> of a path whose last component carries the wildcards: the entries
  of the directory part that match the last component, as paths. A name that starts with
  a dot is left out unless the pattern starts with a dot. Wildcards in the directory part
  are not expanded (the directory part is taken as written).
\<close>

definition ishidden :: "string \<Rightarrow> bool" where
  "ishidden n = prefix ''.'' n"

definition glob :: "string list \<Rightarrow> string \<Rightarrow> string list" where
  "glob tree pathname =
     (let (dirname, pat) = os_path_split pathname
      in map (os_path_join dirname)
           (filter (\<lambda>n. if ishidden n then ishidden pat \<and> fnmatch pat n else fnmatch pat n)
             (listdir tree dirname)))"

section \<open>The process: environment, output, child processes\<close>

text \<open>
  \<open>environ\<close> is \<^verbatim>\<open>os.environ\<close>, \<open>tree\<close> the file system, \<open>stdout\<close> what the
  script has printed (one entry for each \<^verbatim>\<open>print\<close>), \<open>launched\<close> the child processes
  started so far, each with its command line and the environment handed to \<^verbatim>\<open>Popen\<close>.
  A Python \<^verbatim>\<open>str\<close> is held as its UTF-8 bytes, and the standard output is taken to
  encode every text (UTF-8), so that \<^verbatim>\<open>print\<close> itself never raises.
\<close>

record world =
  environ :: "string \<rightharpoonup> string"
  tree :: "string list"
  stdout :: "string list"
  launched :: "(string \<times> (string \<rightharpoonup> string)) list"

text \<open>
  What a child process does, as far as \<^verbatim>\<open>run\<close> observes it. \<open>running_reads\<close>
  are the bytes that the successive \<^verbatim>\<open>readline\<close> calls return while
  \<^verbatim>\<open>process.poll()\<close> still answers \<open>None\<close>; an empty string is a read at end of
  file. \<open>exit_status\<close> is the status \<^verbatim>\<open>poll\<close> answers from then on, \<open>None\<close> for
  a child that never exits. \<open>final_reads\<close> are the reads that are left once the child has
  exited; after them every read is at end of file. \<open>tree_after\<close> is the file system the
  child leaves behind.
\<close>

record child =
  running_reads :: "string list"
  exit_status :: "int option"
  final_reads :: "string list"
  tree_after :: "string list"

text \<open>
  The external programs are given: a function from the command line, the environment of
  the child and the file system it starts in to what the child does.
\<close>

type_synonym shell = "string \<Rightarrow> (string \<rightharpoonup> string) \<Rightarrow> string list \<Rightarrow> child"

datatype error = Exception string | KeyError string | UnicodeDecodeError

text \<open>
  \<^verbatim>\<open>str(line, 'utf-8')\<close> (line 21) raises \<^verbatim>\<open>UnicodeDecodeError\<close> unless the
  bytes are well-formed UTF-8. \<open>utf8_lead\<close> gives, for the first byte of a character, the
  ranges its following bytes must lie in (overlong forms, surrogates and values above
  U+10FFFF are refused); \<open>decodes\<close> holds when the whole line is well formed.
\<close>

definition utf8_lead :: "nat \<Rightarrow> (nat \<times> nat) list option" where
  "utf8_lead n =
     (if n < 0x80 then Some []
      else if 0xC2 \<le> n \<and> n \<le> 0xDF then Some [(0x80, 0xBF)]
      else if n = 0xE0 then Some [(0xA0, 0xBF), (0x80, 0xBF)]
      else if 0xE1 \<le> n \<and> n \<le> 0xEC then Some [(0x80, 0xBF), (0x80, 0xBF)]
      else if n = 0xED then Some [(0x80, 0x9F), (0x80, 0xBF)]
      else if n = 0xEE \<or> n = 0xEF then Some [(0x80, 0xBF), (0x80, 0xBF)]
      else if n = 0xF0 then Some [(0x90, 0xBF), (0x80, 0xBF), (0x80, 0xBF)]
      else if 0xF1 \<le> n \<and> n \<le> 0xF3 then Some [(0x80, 0xBF), (0x80, 0xBF), (0x80, 0xBF)]
      else if n = 0xF4 then Some [(0x80, 0x8F), (0x80, 0xBF), (0x80, 0xBF)]
      else None)"

fun utf8_scan :: "(nat \<times> nat) list \<Rightarrow> string \<Rightarrow> bool" where
  "utf8_scan [] [] = True"
| "utf8_scan (r # rs) [] = False"
| "utf8_scan [] (b # bs) =
     (case utf8_lead (of_char b) of None \<Rightarrow> False | Some pending \<Rightarrow> utf8_scan pending bs)"
| "utf8_scan ((lo, hi) # rs) (b # bs) =
     (if lo \<le> of_char b \<and> of_char b \<le> hi then utf8_scan rs bs else False)"

definition decodes :: "string \<Rightarrow> bool" where
  "decodes l = utf8_scan [] l"

text \<open>
  \<^verbatim>\<open>line[:-1]\<close> drops the last character of the decoded line: its last byte that is
  not a continuation byte, with the continuation bytes after it.
\<close>

definition drop_last_char :: "string \<Rightarrow> string" where
  "drop_last_char l =
     rev (drop 1 (dropWhile (\<lambda>b. 0x80 \<le> (of_char b :: nat) \<and> (of_char b :: nat) \<le> 0xBF) (rev l)))"

text \<open>
  The read loop of \<^verbatim>\<open>run\<close> (lines 19 to 24). Each line is decoded, which may raise,
  and printed without its last character. While \<^verbatim>\<open>poll\<close> answers \<open>None\<close> the loop
  goes on whatever the line is; once the child has exited the loop ends at the first line
  that is empty after the cut, at the latest at end of file. Both functions return the
  printed lines and the exception raised, if any.
\<close>

fun read_while_running :: "string list \<Rightarrow> string list \<times> error option" where
  "read_while_running [] = ([], None)"
| "read_while_running (l # ls) =
     (if decodes l
      then (case read_while_running ls of (out, e) \<Rightarrow> (drop_last_char l # out, e))
      else ([], Some UnicodeDecodeError))"

fun read_after_exit :: "string list \<Rightarrow> string list \<times> error option" where
  "read_after_exit [] = ([[]], None)"
| "read_after_exit (l # ls) =
     (if decodes l
      then (if drop_last_char l = [] then ([[]], None)
            else (case read_after_exit ls of (out, e) \<Rightarrow> (drop_last_char l # out, e)))
      else ([], Some UnicodeDecodeError))"

text \<open>
  The whole loop: \<open>None\<close> when it never ends (the child never exits and every line
  decodes), otherwise the printed lines with the exception raised or
  \<^verbatim>\<open>process.returncode\<close>.
\<close>

definition read_loop :: "child \<Rightarrow> (string list \<times> (error + int)) option" where
  "read_loop process =
     (case read_while_running (running_reads process) of
        (out1, Some e) \<Rightarrow> Some (out1, Inl e)
      | (out1, None) \<Rightarrow>
          (case exit_status process of
             None \<Rightarrow> None
           | Some returncode \<Rightarrow>
               (case read_after_exit (final_reads process) of
                  (out2, Some e) \<Rightarrow> Some (out1 @ out2, Inl e)
                | (out2, None) \<Rightarrow> Some (out1 @ out2, Inr returncode))))"

text \<open>
  \<^verbatim>\<open>run(command, env, ignore_errors)\<close>. \<^verbatim>\<open>merged_env\<close> is \<^verbatim>\<open>os.environ\<close>
  itself, so the update and the \<^verbatim>\<open>pop\<close> change the environment of the process.
  The result is \<open>None\<close> when the call never returns, otherwise the world after the call
  with \<open>Inl\<close> of the exception raised or \<open>Inr ()\<close>. After an exception of the read
  loop the child may still be running; the script reads no file after such an exception,
  and the model hands on the file system the child leaves behind.
\<close>

definition merged_env :: "(string \<rightharpoonup> string) \<Rightarrow> (string \<rightharpoonup> string) \<Rightarrow> (string \<rightharpoonup> string)" where
  "merged_env osenv env = (osenv ++ env)(''DEBUG'' := None)"

definition run :: "shell \<Rightarrow> string \<Rightarrow> (string \<rightharpoonup> string) \<Rightarrow> bool \<Rightarrow> world
    \<Rightarrow> ((error + unit) \<times> world) option" where
  "run sh command env ignore_errors w =
     (let menv = merged_env (environ w) env;
          process = sh command menv (tree w)
      in case read_loop process of
           None \<Rightarrow> None
         | Some (out, r) \<Rightarrow>
             (let w' = w\<lparr>environ := menv, tree := tree_after process,
                         stdout := stdout w @ out,
                         launched := launched w @ [(command, menv)]\<rparr>
              in case r of
                   Inl e \<Rightarrow> Some (Inl e, w')
                 | Inr returncode \<Rightarrow>
                     if returncode \<noteq> 0 \<and> \<not> ignore_errors
                     then Some (Inl (Exception (''Non zero return code: '' @ show_int returncode)), w')
                     else Some (Inr (), w')))"

section \<open>The script\<close>

text \<open>
  The parsed command line, as far as the script reads it. \<open>output_dir\<close> is the absolute
  path that \<^verbatim>\<open>os.path.abspath\<close> returns; the script is modelled from line 58 on,
  after \<^verbatim>\<open>parse_args\<close>. \<open>participant_label\<close> is \<open>None\<close> when the option is absent.
\<close>

record args =
  output_dir :: string
  analysis_level :: string
  participant_label :: "string list option"
  n_cpus :: int

definition puts :: "string \<Rightarrow> world \<Rightarrow> world" where
  "puts s w = w\<lparr>stdout := stdout w @ [s]\<rparr>"

text \<open>Sequencing of two steps: an exception or a call that never returns ends the sequence.\<close>

definition and_then :: "((error + 'a) \<times> world) option
    \<Rightarrow> ('a \<Rightarrow> world \<Rightarrow> ((error + 'b) \<times> world) option) \<Rightarrow> ((error + 'b) \<times> world) option" where
  "and_then m f =
     (case m of None \<Rightarrow> None
      | Some (Inl e, w) \<Rightarrow> Some (Inl e, w)
      | Some (Inr x, w) \<Rightarrow> f x w)"



text \<open>Lines 94 to 96: the timepoints of a subject.\<close>

definition long_subjects :: "string list \<Rightarrow> string \<Rightarrow> string \<Rightarrow> string list" where
  "long_subjects tr out subject_label =
     map os_path_basename (glob tr (os_path_join out (''sub-'' @ subject_label @ ''*.long.*'')))"

definition find_timepoints :: "string list \<Rightarrow> string \<Rightarrow> string \<Rightarrow> string list" where
  "find_timepoints tr out subject_label =
     sort (map (split_first ''.long.'') (long_subjects tr out subject_label))"

text \<open>Lines 106 to 109: the session label and the directory the checks look into.\<close>

definition tp_label :: "string \<Rightarrow> string" where
  "tp_label tp = last (split_char CHR ''-'' (last (split_char CHR ''_'' tp)))"

definition long_name :: "string \<Rightarrow> string \<Rightarrow> string" where
  "long_name sub ses = ''sub-'' @ sub @ ''_ses-'' @ ses @ ''.long.sub-'' @ sub"

definition surf_dir :: "string \<Rightarrow> string \<Rightarrow> string \<Rightarrow> string" where
  "surf_dir out subject_label tp =
     os_path_join (os_path_join out (long_name subject_label (tp_label tp))) ''surf''"

definition lgi_exist :: "string list \<Rightarrow> string \<Rightarrow> bool" where
  "lgi_exist tr sd =
     (path_exists tr (os_path_join sd ''lh.pial_lgi'') \<and> path_exists tr (os_path_join sd ''rh.pial_lgi''))"

definition recon_cmd :: "args \<Rightarrow> string \<Rightarrow> string \<Rightarrow> string" where
  "recon_cmd a subject_label tp =
     ''recon-all -long '' @ tp @ '' '' @ (''sub-'' @ subject_label) @ '' -sd '' @ output_dir a
       @ '' -localGI -parallel -openmp '' @ show_int (n_cpus a)"

definition banner :: "string \<Rightarrow> string" where
  "banner tp = [CHR 0x0A, CHR 0x0A] @ '' '' @ replicate 30 CHR ''*'' @ '' '' @ [CHR 0x0A] @ '' ''
     @ ''running long LGI for '' @ tp"

definition img_not_found :: "string list \<Rightarrow> string \<Rightarrow> string list" where
  "img_not_found tr sd =
     (if path_exists tr (os_path_join sd ''lh.pial_lgi'') then [] else [''lh.pial_lgi''])
     @ (if path_exists tr (os_path_join sd ''rh.pial_lgi'') then [] else [''rh.pial_lgi''])"

text \<open>
  Lines 123 to 142: the \<^verbatim>\<open>try\<close> statement. It raises nothing itself; it returns the two
  lists as it leaves them.
\<close>

definition try_recon :: "shell \<Rightarrow> string \<Rightarrow> string \<Rightarrow> string \<Rightarrow> string \<Rightarrow> string
    \<Rightarrow> string list \<times> string list \<Rightarrow> world \<Rightarrow> ((string list \<times> string list) \<times> world) option" where
  "try_recon sh cmd subject_label lab sd tp gb w =
     (case run sh cmd Map.empty False w of
        None \<Rightarrow> None
      | Some (Inl e, w') \<Rightarrow>
          Some ((fst gb, snd gb @ [lab]),
                puts (''Something failed with tp '' @ lab @ ''. Try other timepoints and raise Error later.'') w')
      | Some (Inr u, w') \<Rightarrow>
          (let missing = img_not_found (tree w') sd in
           if missing \<noteq> []
           then Some ((fst gb, snd gb @ [lab]),
                  puts (''pial_lgi not found after calc for '' @ subject_label @ '' '' @ lab @ '': ''
                        @ join_space missing @ ''. Try other timpoints and raiser Error later.'') w')
           else Some ((fst gb @ [lab], snd gb),
                  puts (''pial_lgi and rh.pial_lgi calculated for '' @ subject_label @ '' '' @ lab) w')))"

text \<open>
  Lines 106 to 151: the body of the loop over the timepoints, on the lists
  \<^verbatim>\<open>(good_tps, bad_tps)\<close>. Lines 144 to 151 are indented under the \<^verbatim>\<open>else\<close> of line
  114, so they belong to the body and run each time a command has been run.
\<close>

definition timepoint :: "shell \<Rightarrow> args \<Rightarrow> string \<Rightarrow> string \<Rightarrow> string list \<times> string list \<Rightarrow> world
    \<Rightarrow> ((error + string list \<times> string list) \<times> world) option" where
  "timepoint sh a subject_label tp gb w =
     (let lab = tp_label tp;
          sd = surf_dir (output_dir a) subject_label tp
      in if lgi_exist (tree w) sd
         then Some (Inr gb,
                puts (''lh.pial_lgi and rh.pial_lgi exist for '' @ subject_label @ '' '' @ lab
                      @ ''. NOT recomputing'') w)
         else
           (let cmd = recon_cmd a subject_label tp;
                w1 = puts cmd (puts (banner tp) w)
            in case try_recon sh cmd subject_label lab sd tp gb w1 of
                 None \<Rightarrow> None
               | Some ((good_tps, bad_tps), w2) \<Rightarrow>
                   (let w3 = (if good_tps \<noteq> []
                              then puts (''Timpoints succesfully processed for '' @ subject_label @ '': ''
                                         @ join_space good_tps) w2
                              else w2)
                    in if bad_tps \<noteq> []
                       then Some (Inl (Exception (''Timpoints failed for '' @ subject_label @ '': ''
                                                  @ join_space bad_tps)), w3)
                       else Some (Inr (good_tps, bad_tps), puts ''Everything seems fine'' w3))))"

fun timepoints_loop :: "shell \<Rightarrow> args \<Rightarrow> string \<Rightarrow> string list \<Rightarrow> string list \<times> string list \<Rightarrow> world
    \<Rightarrow> ((error + string list \<times> string list) \<times> world) option" where
  "timepoints_loop sh a subject_label [] gb w = Some (Inr gb, w)"
| "timepoints_loop sh a subject_label (tp # tps) gb w =
     and_then (timepoint sh a subject_label tp gb w) (timepoints_loop sh a subject_label tps)"

text \<open>Lines 94 to 151: the body of the loop over the subjects.\<close>

definition subject :: "shell \<Rightarrow> args \<Rightarrow> string \<Rightarrow> world \<Rightarrow> ((error + unit) \<times> world) option" where
  "subject sh a subject_label w =
     (let timepoints = find_timepoints (tree w) (output_dir a) subject_label
      in if timepoints = []
         then Some (Inl (Exception (''No timepoints found. Something went wrong: '' @ subject_label)), w)
         else and_then
                (timepoints_loop sh a subject_label timepoints ([], [])
                   (puts (''Timepoints for subject found '' @ subject_label @ '' '' @ repr_list timepoints) w))
                (\<lambda>gb w'. Some (Inr (), w')))"





section \<open>Scenarios\<close>

text \<open>
  A shell whose every command prints nothing, exits with status \<open>rc\<close> and leaves the
  files \<open>files\<close> behind; a world with the three templates in place and two longitudinal
  directories of subject \<open>01\<close>.
\<close>

definition sh_exit :: "int \<Rightarrow> string list \<Rightarrow> shell" where
  "sh_exit rc files command env tr =
     \<lparr>running_reads = [], exit_status = Some rc, final_reads = [], tree_after = tr @ files\<rparr>"

definition w_demo :: world where
  "w_demo = \<lparr>environ = [''SUBJECTS_DIR'' \<mapsto> ''/fs'', ''DEBUG'' \<mapsto> ''1''],
     tree = [''/out/fsaverage'', ''/out/lh.EC_average'', ''/out/rh.EC_average'',
             ''/out/sub-01_ses-1.long.sub-01/mri'', ''/out/sub-01_ses-2.long.sub-01/mri''],
     stdout = [], launched = []\<rparr>"

definition a_demo :: args where
  "a_demo = \<lparr>output_dir = ''/out'', analysis_level = ''participant'',
     participant_label = Some [''01''], n_cpus = 1\<rparr>"

text \<open>The same world once both files of the first timepoint are in place.\<close>

definition w_done :: world where
  "w_done = w_demo\<lparr>tree := tree w_demo @
     [''/out/sub-01_ses-1.long.sub-01/surf/lh.pial_lgi'',
      ''/out/sub-01_ses-1.long.sub-01/surf/rh.pial_lgi'']\<rparr>"

text \<open>The same world once the files of both timepoints are in place.\<close>

definition w_both :: world where
  "w_both = w_done\<lparr>tree := tree w_done @
     [''/out/sub-01_ses-2.long.sub-01/surf/lh.pial_lgi'',
      ''/out/sub-01_ses-2.long.sub-01/surf/rh.pial_lgi'']\<rparr>"

text \<open>
  A shell whose every command prints a line while it runs and a line and an empty line
  after it has exited, exits with status \<open>rc\<close> and leaves the files \<open>files\<close>.
\<close>

definition sh_talk :: "int \<Rightarrow> string list \<Rightarrow> shell" where
  "sh_talk rc files command env tr =
     \<lparr>running_reads = [''working'' @ [CHR 0x0A]], exit_status = Some rc,
      final_reads = [''done'' @ [CHR 0x0A], [CHR 0x0A], ''never shown'' @ [CHR 0x0A]],
      tree_after = tr @ files\<rparr>"



text \<open>
  A world in which label \<open>01\<close> also finds a directory of subject \<open>010\<close>, whose two
  files are in place.
\<close>

definition w_other :: world where
  "w_other = w_demo\<lparr>tree :=
     [''/out/fsaverage'', ''/out/lh.EC_average'', ''/out/rh.EC_average'',
      ''/out/sub-010_ses-2.long.sub-010/surf/lh.pial_lgi'',
      ''/out/sub-010_ses-2.long.sub-010/surf/rh.pial_lgi'']\<rparr>"

section \<open>Vocabulary of the statements\<close>

text \<open>
  The child that \<^verbatim>\<open>run(cmd)\<close> starts for a timepoint when the environment of the
  process is \<open>osenv\<close> and the file system \<open>tr\<close>; a child all of whose output is
  well-formed UTF-8.
\<close>

definition recon_child :: "shell \<Rightarrow> args \<Rightarrow> string \<Rightarrow> string \<Rightarrow> (string \<rightharpoonup> string) \<Rightarrow> string list \<Rightarrow> child" where
  "recon_child sh a subject_label tp osenv tr =
     sh (recon_cmd a subject_label tp) (merged_env osenv Map.empty) tr"

definition output_decodes :: "child \<Rightarrow> bool" where
  "output_decodes process = list_all decodes (running_reads process @ final_reads process)"

section \<open>The command-execution primitive\<close>

lemma read_while_running_ok: "list_all decodes ls \<Longrightarrow> snd (read_while_running ls) = None"
  by (induction ls) (auto split: prod.splits)

lemma read_after_exit_ok: "list_all decodes ls \<Longrightarrow> snd (read_after_exit ls) = None"
  by (induction ls) (auto split: prod.splits)

lemma read_loop_returns:
  assumes "exit_status process = Some rc" and "output_decodes process"
  shows "\<exists>out. read_loop process = Some (out, Inr rc)"
proof -
  from assms(2) have a: "snd (read_while_running (running_reads process)) = None"
    and b: "snd (read_after_exit (final_reads process)) = None"
    by (simp_all add: output_decodes_def read_while_running_ok read_after_exit_ok)
  obtain o1 where o1: "read_while_running (running_reads process) = (o1, None)"
    using a by (cases "read_while_running (running_reads process)") auto
  obtain o2 where o2: "read_after_exit (final_reads process) = (o2, None)"
    using b by (cases "read_after_exit (final_reads process)") auto
  show ?thesis by (simp add: read_loop_def o1 o2 assms(1))
qed

lemma run_Some_world:
  assumes "run sh command env ignore_errors w = Some (r, w')"
  shows "environ w' = merged_env (environ w) env
       \<and> launched w' = launched w @ [(command, merged_env (environ w) env)]"
  using assms by (auto simp: run_def Let_def split: option.splits if_splits sum.splits)

lemma merged_env_DEBUG: "merged_env osenv env ''DEBUG'' = None"
  by (simp add: merged_env_def)

lemma merged_env_other:
  "k \<noteq> ''DEBUG'' \<Longrightarrow> merged_env osenv env k = (case env k of Some v \<Rightarrow> Some v | None \<Rightarrow> osenv k)"
  by (simp add: merged_env_def map_add_def split: option.splits)






text \<open>
  C9. \<^verbatim>\<open>run\<close> changes the environment of the process itself: after a call, it is the
  merged environment, so every override other than \<^verbatim>\<open>DEBUG\<close> is present in it and
  \<^verbatim>\<open>DEBUG\<close> is absent; a later call starts from that environment, so its child sees
  the overrides of the earlier call unless the later call overrides them itself.
\<close>

theorem run_mutates_environ:
  assumes "run sh command env ignore_errors w = Some (r, w')"
  shows "environ w' = merged_env (environ w) env
       \<and> environ w' ''DEBUG'' = None
       \<and> (\<forall>k v. k \<noteq> ''DEBUG'' \<longrightarrow> env k = Some v \<longrightarrow> environ w' k = Some v)
       \<and> (\<forall>command2 env2 ignore2 r2 w''.
            run sh command2 env2 ignore2 w' = Some (r2, w'') \<longrightarrow>
              launched w'' = launched w' @ [(command2, merged_env (environ w') env2)]
              \<and> environ w'' ''DEBUG'' = None
              \<and> (\<forall>k v. k \<noteq> ''DEBUG'' \<longrightarrow> env k = Some v \<longrightarrow> env2 k = None \<longrightarrow>
                    merged_env (environ w') env2 k = Some v \<and> environ w'' k = Some v))"
proof -
  have e: "environ w' = merged_env (environ w) env"
    using run_Some_world [OF assms] by simp
  have p: "\<forall>k v. k \<noteq> ''DEBUG'' \<longrightarrow> env k = Some v \<longrightarrow> environ w' k = Some v"
    by (simp add: e merged_env_other)
  have n: "\<forall>command2 env2 ignore2 r2 w''.
            run sh command2 env2 ignore2 w' = Some (r2, w'') \<longrightarrow>
              launched w'' = launched w' @ [(command2, merged_env (environ w') env2)]
              \<and> environ w'' ''DEBUG'' = None
              \<and> (\<forall>k v. k \<noteq> ''DEBUG'' \<longrightarrow> env k = Some v \<longrightarrow> env2 k = None \<longrightarrow>
                    merged_env (environ w') env2 k = Some v \<and> environ w'' k = Some v)"
  proof (intro allI impI)
    fix command2 env2 ignore2 r2 w''
    assume "run sh command2 env2 ignore2 w' = Some (r2, w'')"
    from run_Some_world [OF this] p
    show "launched w'' = launched w' @ [(command2, merged_env (environ w') env2)]
              \<and> environ w'' ''DEBUG'' = None
              \<and> (\<forall>k v. k \<noteq> ''DEBUG'' \<longrightarrow> env k = Some v \<longrightarrow> env2 k = None \<longrightarrow>
                    merged_env (environ w') env2 k = Some v \<and> environ w'' k = Some v)"
      by (simp add: merged_env_DEBUG merged_env_other)
  qed
  from e p n show ?thesis by (simp add: merged_env_DEBUG)
qed

theorem run_mutates_environ_witness:
  "\<exists>r w' r2 w''.
      run (sh_exit 0 []) ''true'' [''LANG'' \<mapsto> ''C''] False w_demo = Some (r, w')
    \<and> run (sh_exit 0 []) ''date'' Map.empty False w' = Some (r2, w'')
    \<and> environ w_demo ''LANG'' = None \<and> environ w_demo ''DEBUG'' = Some ''1''
    \<and> environ w' ''LANG'' = Some ''C'' \<and> environ w' ''DEBUG'' = None
    \<and> snd (last (launched w'')) ''LANG'' = Some ''C''"
proof -
  obtain r w' where
    h: "run (sh_exit 0 []) ''true'' [''LANG'' \<mapsto> ''C''] False w_demo = Some (r, w')"
    by (simp add: run_def read_loop_def sh_exit_def Let_def)
  obtain r2 w'' where
    h2: "run (sh_exit 0 []) ''date'' Map.empty False w' = Some (r2, w'')"
    by (simp add: run_def read_loop_def sh_exit_def Let_def)
  note m = run_mutates_environ [OF h]
  from m have a: "environ w' ''LANG'' = Some ''C'' \<and> environ w' ''DEBUG'' = None"
    by (simp add: merged_env_def)
  from m h2 have "launched w'' = launched w' @ [(''date'', merged_env (environ w') Map.empty)]
      \<and> merged_env (environ w') Map.empty ''LANG'' = Some ''C''"
    by (simp add: merged_env_def)
  then have b: "snd (last (launched w'')) ''LANG'' = Some ''C''" by simp
  have c: "environ w_demo ''LANG'' = None \<and> environ w_demo ''DEBUG'' = Some ''1''"
    by (simp add: w_demo_def)
  from h h2 a b c show ?thesis by blast
qed


section \<open>The script: preconditions\<close>

lemma puts_fields [simp]:
  "launched (puts s w) = launched w" "tree (puts s w) = tree w"
  "environ (puts s w) = environ w" "stdout (puts s w) = stdout w @ [s]"
  by (simp_all add: puts_def)


text \<open>
  C6. When the discovery finds no timepoint for a subject, the body of the subject loop
  raises the error that names the subject and leaves the world as it found it: nothing is
  printed and no command is started for that subject.
\<close>

theorem no_timepoints_error:
  assumes "find_timepoints (tree w) (output_dir a) subject_label = []"
  shows "subject sh a subject_label w =
           Some (Inl (Exception (''No timepoints found. Something went wrong: '' @ subject_label)), w)"
  using assms by (simp add: subject_def)

theorem no_timepoints_error_witness:
  "find_timepoints (tree w_demo) (output_dir a_demo) ''02'' = []
   \<and> subject (sh_exit 0 []) a_demo ''02'' w_demo =
       Some (Inl (Exception ''No timepoints found. Something went wrong: 02''), w_demo)"
proof -
  have h: "find_timepoints (tree w_demo) (output_dir a_demo) ''02'' = []"
    by code_simp
  from no_timepoints_error [OF h, of "sh_exit 0 []"] h show ?thesis by simp
qed




section \<open>The loop over the timepoints\<close>

lemma timepoint_done:
  assumes "lgi_exist (tree w) (surf_dir (output_dir a) subject_label tp)"
  shows "timepoint sh a subject_label tp gb w =
           Some (Inr gb, puts (''lh.pial_lgi and rh.pial_lgi exist for '' @ subject_label @ '' ''
                               @ tp_label tp @ ''. NOT recomputing'') w)"
  using assms by (simp add: timepoint_def Let_def)

lemma loop_append:
  "timepoints_loop sh a subject_label (xs @ ys) gb w =
     and_then (timepoints_loop sh a subject_label xs gb w) (timepoints_loop sh a subject_label ys)"
proof (induction xs arbitrary: gb w)
  case Nil
  then show ?case by (simp add: and_then_def)
next
  case (Cons x xs)
  show ?case
    by (cases "timepoint sh a subject_label x gb w")
       (auto simp: and_then_def Cons.IH split: sum.splits)
qed

text \<open>
  C2, as the code has it. The check looks into the directory rebuilt from the subject
  label and the session label, which need not be the directory that was discovered. When
  the loop reaches a timepoint (the timepoints before it raised nothing) and both files
  exist in the directory the check looks into, the body starts no command, prints the
  message that it is not recomputing, raises nothing, leaves the lists of good and bad
  timepoints as they are, and the loop goes on with the timepoints that follow.
\<close>

theorem skip_when_both_exist:
  assumes "timepoints_loop sh a subject_label earlier gb w = Some (Inr gb1, w1)"
      and "lgi_exist (tree w1) (surf_dir (output_dir a) subject_label tp)"
  shows "\<exists>w2. timepoint sh a subject_label tp gb1 w1 = Some (Inr gb1, w2)
           \<and> timepoints_loop sh a subject_label (earlier @ tp # later) gb w
               = timepoints_loop sh a subject_label later gb1 w2
           \<and> launched w2 = launched w1 \<and> tree w2 = tree w1 \<and> environ w2 = environ w1
           \<and> stdout w2 = stdout w1 @ [''lh.pial_lgi and rh.pial_lgi exist for '' @ subject_label @ '' ''
                               @ tp_label tp @ ''. NOT recomputing'']"
proof -
  let ?w2 = "puts (''lh.pial_lgi and rh.pial_lgi exist for '' @ subject_label @ '' ''
                               @ tp_label tp @ ''. NOT recomputing'') w1"
  have s: "timepoint sh a subject_label tp gb1 w1 = Some (Inr gb1, ?w2)"
    by (rule timepoint_done [OF assms(2)])
  have "timepoints_loop sh a subject_label (earlier @ tp # later) gb w
          = timepoints_loop sh a subject_label (tp # later) gb1 w1"
    unfolding loop_append assms(1) by (simp add: and_then_def)
  also have "\<dots> = and_then (timepoint sh a subject_label tp gb1 w1)
                      (timepoints_loop sh a subject_label later)"
    by (rule timepoints_loop.simps(2))
  also have "\<dots> = timepoints_loop sh a subject_label later gb1 ?w2"
    unfolding s by (simp add: and_then_def)
  finally have l: "timepoints_loop sh a subject_label (earlier @ tp # later) gb w
          = timepoints_loop sh a subject_label later gb1 ?w2" .
  have f: "launched ?w2 = launched w1 \<and> tree ?w2 = tree w1 \<and> environ ?w2 = environ w1
           \<and> stdout ?w2 = stdout w1 @ [''lh.pial_lgi and rh.pial_lgi exist for '' @ subject_label @ '' ''
                               @ tp_label tp @ ''. NOT recomputing'']"
    by simp
  from s l f show ?thesis by blast
qed

text \<open>
  The instance: both timepoints of the subject are complete; the loop has passed the first
  and reaches the second.
\<close>

theorem skip_when_both_exist_witness:
  "\<exists>w1. timepoints_loop (sh_exit 1 []) a_demo ''01'' [''sub-01_ses-1''] ([], []) w_both
           = Some (Inr ([], []), w1)
     \<and> lgi_exist (tree w1) (surf_dir (output_dir a_demo) ''01'' ''sub-01_ses-2'')
     \<and> (\<exists>w2. timepoint (sh_exit 1 []) a_demo ''01'' ''sub-01_ses-2'' ([], []) w1 = Some (Inr ([], []), w2)
           \<and> timepoints_loop (sh_exit 1 []) a_demo ''01'' [''sub-01_ses-1'', ''sub-01_ses-2''] ([], []) w_both
               = Some (Inr ([], []), w2)
           \<and> launched w2 = []
           \<and> stdout w2 = [''lh.pial_lgi and rh.pial_lgi exist for 01 1. NOT recomputing'',
                           ''lh.pial_lgi and rh.pial_lgi exist for 01 2. NOT recomputing''])"
proof -
  let ?w1 = "puts (''lh.pial_lgi and rh.pial_lgi exist for '' @ ''01'' @ '' ''
                     @ tp_label ''sub-01_ses-1'' @ ''. NOT recomputing'') w_both"
  have h1: "lgi_exist (tree w_both) (surf_dir (output_dir a_demo) ''01'' ''sub-01_ses-1'')"
    by code_simp
  have h2: "lgi_exist (tree w_both) (surf_dir (output_dir a_demo) ''01'' ''sub-01_ses-2'')"
    by code_simp
  have r: "timepoints_loop (sh_exit 1 []) a_demo ''01'' [''sub-01_ses-1''] ([], []) w_both
             = Some (Inr ([], []), ?w1)"
    using timepoint_done [OF h1, of "sh_exit 1 []" "([], [])"] by (simp add: and_then_def)
  have h: "lgi_exist (tree ?w1) (surf_dir (output_dir a_demo) ''01'' ''sub-01_ses-2'')"
    using h2 by simp
  have l: "launched ?w1 = []"
          "stdout ?w1 = [''lh.pial_lgi and rh.pial_lgi exist for 01 1. NOT recomputing'']"
          "tp_label ''sub-01_ses-2'' = ''2''"
    by (simp_all add: w_both_def w_done_def w_demo_def tp_label_def)
  from skip_when_both_exist [OF r h, of "[]"] l
  have "\<exists>w2. timepoint (sh_exit 1 []) a_demo ''01'' ''sub-01_ses-2'' ([], []) ?w1 = Some (Inr ([], []), w2)
           \<and> timepoints_loop (sh_exit 1 []) a_demo ''01'' [''sub-01_ses-1'', ''sub-01_ses-2''] ([], []) w_both
               = Some (Inr ([], []), w2)
           \<and> launched w2 = []
           \<and> stdout w2 = [''lh.pial_lgi and rh.pial_lgi exist for 01 1. NOT recomputing'',
                           ''lh.pial_lgi and rh.pial_lgi exist for 01 2. NOT recomputing'']"
    by auto
  with r h show ?thesis by blast
qed

text \<open>
  C2 fails as stated. Label \<open>01\<close> also finds the directory of subject \<open>010\<close>; both
  files exist in the \<^verbatim>\<open>surf\<close> directory of that discovered directory, but the check
  looks into \<^verbatim>\<open>sub-01_ses-2.long.sub-01/surf\<close>, finds nothing and the command is
  started.
\<close>

theorem files_in_discovered_dir_not_seen:
  "find_timepoints (tree w_other) (output_dir a_demo) ''01'' = [''sub-010_ses-2'']
   \<and> long_subjects (tree w_other) (output_dir a_demo) ''01'' = [''sub-010_ses-2.long.sub-010'']
   \<and> lgi_exist (tree w_other) ''/out/sub-010_ses-2.long.sub-010/surf''
   \<and> map_option (map fst \<circ> launched \<circ> snd) (subject (sh_exit 0 []) a_demo ''01'' w_other)
       = Some [''recon-all -long sub-010_ses-2 sub-01 -sd /out -localGI -parallel -openmp 1'']"
  by code_simp

text \<open>
  When the files of every timepoint of the list exist, the whole loop starts no command
  and ends without an error.
\<close>

lemma all_done_loop:
  assumes "list_all (\<lambda>tp. lgi_exist (tree w) (surf_dir (output_dir a) subject_label tp)) tps"
  shows "\<exists>w'. timepoints_loop sh a subject_label tps gb w = Some (Inr gb, w')
           \<and> launched w' = launched w \<and> tree w' = tree w"
  using assms
proof (induction tps arbitrary: w)
  case Nil
  then show ?case by simp
next
  case (Cons tp tps)
  let ?w1 = "puts (''lh.pial_lgi and rh.pial_lgi exist for '' @ subject_label @ '' ''
                               @ tp_label tp @ ''. NOT recomputing'') w"
  from Cons.prems have d: "lgi_exist (tree w) (surf_dir (output_dir a) subject_label tp)" by simp
  from Cons.prems have "list_all (\<lambda>tp. lgi_exist (tree ?w1) (surf_dir (output_dir a) subject_label tp)) tps"
    by simp
  from Cons.IH [OF this] obtain w' where
    "timepoints_loop sh a subject_label tps gb ?w1 = Some (Inr gb, w')"
    "launched w' = launched w" "tree w' = tree w" by auto
  then show ?case by (simp add: timepoint_done [OF d] and_then_def)
qed

text \<open>
  C1. The claim fails on the code: lines 144 to 151 stand inside the loop body, so the
  error is raised in the iteration of the first timepoint that fails. Subject \<open>01\<close> has
  the timepoints \<open>sub-01_ses-1\<close> and \<open>sub-01_ses-2\<close>; with a reconstruction command
  that always exits with status 1, the run raises after the first one, names only session
  \<open>1\<close>, and has started one command: the second timepoint was never tried.
\<close>

theorem first_failure_ends_loop:
  "find_timepoints (tree w_demo) (output_dir a_demo) ''01'' = [''sub-01_ses-1'', ''sub-01_ses-2'']
   \<and> map_option (\<lambda>(r, w). (r, map fst (launched w))) (subject (sh_exit 1 []) a_demo ''01'' w_demo)
       = Some (Inl (Exception ''Timpoints failed for 01: 1''),
               [''recon-all -long sub-01_ses-1 sub-01 -sd /out -localGI -parallel -openmp 1''])"
  by code_simp

lemma merged_env_idem [simp]: "merged_env (merged_env e Map.empty) Map.empty = merged_env e Map.empty"
  by (simp add: merged_env_def)

lemma img_not_found_iff: "img_not_found tr sd = [] \<longleftrightarrow> lgi_exist tr sd"
  by (simp add: img_not_found_def lgi_exist_def)

lemma recon_child_read:
  assumes "exit_status (recon_child sh a subject_label tp osenv tr) = Some rc"
      and "output_decodes (recon_child sh a subject_label tp osenv tr)"
  shows "\<exists>out. read_loop (sh (recon_cmd a subject_label tp) (merged_env osenv Map.empty) tr)
           = Some (out, Inr rc)"
  using read_loop_returns [OF assms] by (simp add: recon_child_def)


lemma timepoint_bad:
  assumes "\<not> lgi_exist (tree w) (surf_dir (output_dir a) subject_label tp)"
      and "exit_status (recon_child sh a subject_label tp (environ w) (tree w)) = Some rc"
      and "output_decodes (recon_child sh a subject_label tp (environ w) (tree w))"
      and "rc \<noteq> 0 \<or> \<not> lgi_exist (tree_after (recon_child sh a subject_label tp (environ w) (tree w)))
             (surf_dir (output_dir a) subject_label tp)"
  shows "\<exists>w'. timepoint sh a subject_label tp (good, bad) w =
             Some (Inl (Exception (''Timpoints failed for '' @ subject_label @ '': ''
                                   @ join_space (bad @ [tp_label tp]))), w')
           \<and> map fst (launched w') = map fst (launched w) @ [recon_cmd a subject_label tp]"
proof -
  from recon_child_read [OF assms(2,3)] obtain out where
    "read_loop (sh (recon_cmd a subject_label tp) (merged_env (environ w) Map.empty) (tree w))
       = Some (out, Inr rc)" ..
  then show ?thesis using assms(1,4)
    by (auto simp: timepoint_def try_recon_def run_def Let_def recon_child_def img_not_found_iff)
qed

text \<open>
  A timepoint that fails ends the loop whatever timepoints follow it: the rest of the list
  is not looked at.
\<close>

lemma failure_skips_rest:
  assumes "\<not> lgi_exist (tree w) (surf_dir (output_dir a) subject_label tp)"
      and "exit_status (recon_child sh a subject_label tp (environ w) (tree w)) = Some rc"
      and "output_decodes (recon_child sh a subject_label tp (environ w) (tree w))"
      and "rc \<noteq> 0 \<or> \<not> lgi_exist (tree_after (recon_child sh a subject_label tp (environ w) (tree w)))
             (surf_dir (output_dir a) subject_label tp)"
  shows "\<exists>w'. timepoints_loop sh a subject_label (tp # rest) (good, bad) w =
             Some (Inl (Exception (''Timpoints failed for '' @ subject_label @ '': ''
                                   @ join_space (bad @ [tp_label tp]))), w')
           \<and> map fst (launched w') = map fst (launched w) @ [recon_cmd a subject_label tp]"
  using timepoint_bad [OF assms, of good bad] by (auto simp: and_then_def)






text \<open>
  What the read loop prints of a child: the lines without their newline, up to the first
  empty read after the exit, for which it prints an empty line.
\<close>

lemma read_loop_talk:
  "read_loop (sh_talk rc files command env tr) = Some ([''working'', ''done'', []], Inr rc)"
  by (simp add: read_loop_def sh_talk_def decodes_def utf8_lead_def drop_last_char_def)


section \<open>Splitting names\<close>

lemma split_char_nonempty [simp]: "split_char c s \<noteq> []"
  by (induction s) (auto split: list.splits)

lemma split_char_single: "c \<notin> set s \<Longrightarrow> split_char c s = [s]"
  by (induction s) auto

lemma split_char_tl: "tl (split_char c s) = [] \<longleftrightarrow> c \<notin> set s"
  by (induction s) (auto split: list.splits)

lemma last_split_char: "last (split_char c s) = rev (takeWhile (\<lambda>x. x \<noteq> c) (rev s))"
proof (induction s)
  case Nil
  then show ?case by simp
next
  case (Cons x xs)
  show ?case
  proof (cases "x = c")
    case True
    then show ?thesis using Cons.IH by (simp add: takeWhile_append)
  next
    case False
    obtain piece pieces where p: "split_char c xs = piece # pieces"
      by (cases "split_char c xs") auto
    show ?thesis
    proof (cases "c \<in> set xs")
      case True
      then have "pieces \<noteq> []" using split_char_tl [of c xs] p by auto
      then show ?thesis using False True Cons.IH p by (auto simp: takeWhile_append)
    next
      case f: False
      then show ?thesis using False by (simp add: split_char_single takeWhile_append)
    qed
  qed
qed

lemma last_split_char_append:
  "c \<notin> set n \<Longrightarrow> last (split_char c (xs @ c # n)) = n"
  by (simp add: last_split_char takeWhile_append)

lemma tp_label_form:
  assumes "CHR ''_'' \<notin> set ses" "CHR ''-'' \<notin> set ses"
  shows "tp_label (''sub-'' @ sub @ ''_ses-'' @ ses) = ses"
proof -
  have "last (split_char CHR ''_'' ((''sub-'' @ sub) @ CHR ''_'' # (''ses-'' @ ses))) = ''ses-'' @ ses"
    using assms(1) by (intro last_split_char_append) simp
  moreover have "last (split_char CHR ''-'' (''ses'' @ CHR ''-'' # ses)) = ses"
    using assms(2) by (intro last_split_char_append)
  ultimately show ?thesis by (simp add: tp_label_def)
qed

lemma tp_label_clean: "CHR ''_'' \<notin> set (tp_label tp) \<and> CHR ''-'' \<notin> set (tp_label tp)"
proof -
  have a: "\<And>c s. c \<notin> set (last (split_char c s))"
    by (metis (mono_tags, lifting) last_split_char set_rev set_takeWhileD)
  have b: "\<And>c s. set (last (split_char c s)) \<subseteq> set s"
    by (metis (no_types, lifting) last_split_char set_rev set_takeWhileD subsetI)
  show ?thesis unfolding tp_label_def using a b by blast
qed

lemma basename_join:
  assumes "CHR ''/'' \<notin> set n"
  shows "os_path_basename (os_path_join d n) = n"
proof -
  have np: "\<not> prefix ''/'' n" using assms by (cases n) auto
  show ?thesis
  proof (cases "d = [] \<or> last d = CHR ''/''")
    case True
    then show ?thesis
    proof
      assume "d = []" then show ?thesis using assms np
        by (simp add: os_path_join_def os_path_basename_def split_char_single)
    next
      assume l: "last d = CHR ''/''"
      show ?thesis
      proof (cases "d = []")
        case True then show ?thesis using assms np
          by (simp add: os_path_join_def os_path_basename_def split_char_single)
      next
        case False
        then obtain ys where "d = ys @ ''/''" using l by (metis append_butlast_last_id)
        then show ?thesis using assms np l
          by (simp add: os_path_join_def os_path_basename_def last_split_char_append)
      qed
    qed
  next
    case False
    then show ?thesis using assms np
      by (simp add: os_path_join_def os_path_basename_def last_split_char_append)
  qed
qed



section \<open>The discovery of the timepoints\<close>

lemma listdir_names: "n \<in> set (listdir tr d) \<Longrightarrow> CHR ''/'' \<notin> set n"
  by (auto simp: listdir_def dest: set_takeWhileD)

lemma distinct_listdir: "distinct (listdir tr d)"
  by (simp add: listdir_def)

lemma long_subjects_filter:
  "long_subjects tr out subject_label =
     (let (dirname, pat) = os_path_split (os_path_join out (''sub-'' @ subject_label @ ''*.long.*''))
      in filter (\<lambda>n. if ishidden n then ishidden pat \<and> fnmatch pat n else fnmatch pat n)
           (listdir tr dirname))"
proof -
  obtain dirname pat where
    sp: "os_path_split (os_path_join out (''sub-'' @ subject_label @ ''*.long.*'')) = (dirname, pat)"
    by (cases "os_path_split (os_path_join out (''sub-'' @ subject_label @ ''*.long.*''))")
  have m: "map (os_path_basename \<circ> os_path_join dirname) xs = xs"
    if "\<forall>n\<in>set xs. CHR ''/'' \<notin> set n" for xs
    using that by (induction xs) (auto simp: basename_join)
  have "map (os_path_basename \<circ> os_path_join dirname) (filter P (listdir tr dirname))
          = filter P (listdir tr dirname)" for P
    by (rule m) (auto dest: listdir_names)
  then show ?thesis
    unfolding long_subjects_def glob_def sp
    by simp
qed


lemma distinct_long_subjects: "distinct (long_subjects tr out subject_label)"
  by (simp add: long_subjects_filter distinct_listdir split: prod.splits)

text \<open>
  What \<^verbatim>\<open>fnmatch\<close> accepts: a pattern that starts with text free of wildcards accepts
  the names that start with that text and go on as the rest of the pattern accepts; a
  pattern that starts with \<^verbatim>\<open>*\<close> accepts the names of which a final part is accepted
  by the rest of the pattern.
\<close>

lemma fnmatch_Nil: "fnmatch [] n \<longleftrightarrow> n = []"
  by (cases n) simp_all

lemma fnmatch_star: "fnmatch (CHR ''*'' # ps) n \<longleftrightarrow> (\<exists>x m. n = x @ m \<and> fnmatch ps m)"
proof (induction n)
  case Nil
  then show ?case by simp
next
  case (Cons c cs)
  have "(\<exists>x m. c # cs = x @ m \<and> fnmatch ps m)
          \<longleftrightarrow> fnmatch ps (c # cs) \<or> (\<exists>x m. cs = x @ m \<and> fnmatch ps m)"
    by (auto simp: Cons_eq_append_conv)
  then show ?case using Cons.IH by auto
qed

lemma fnmatch_literal:
  "\<not> has_magic l \<Longrightarrow> fnmatch (l @ ps) n \<longleftrightarrow> (\<exists>m. n = l @ m \<and> fnmatch ps m)"
proof (induction l arbitrary: n)
  case Nil
  then show ?case by simp
next
  case (Cons a l)
  then have a: "a \<noteq> CHR ''*''" "a \<noteq> CHR ''?''" and l: "\<not> has_magic l"
    by (auto simp: has_magic_def)
  show ?case
  proof (cases n)
    case Nil
    then show ?thesis using a by simp
  next
    case (Cons c cs)
    then show ?thesis using a Cons.IH [OF l, of cs] by auto
  qed
qed

lemma fnmatch_long:
  assumes "\<not> has_magic subject_label"
  shows "fnmatch (''sub-'' @ subject_label @ ''*.long.*'') n
           \<longleftrightarrow> (\<exists>x y. n = ''sub-'' @ subject_label @ x @ ''.long.'' @ y)"
proof -
  have m: "\<not> has_magic (''sub-'' @ subject_label)" "\<not> has_magic ''.long.''"
    using assms by (simp_all add: has_magic_def)
  have t: "fnmatch ''*'' y" for y
    unfolding fnmatch_star fnmatch_Nil by simp
  have "fnmatch ((''sub-'' @ subject_label) @ CHR ''*'' # (''.long.'' @ ''*'')) n
          \<longleftrightarrow> (\<exists>m. n = (''sub-'' @ subject_label) @ m
                   \<and> (\<exists>x m'. m = x @ m' \<and> (\<exists>y. m' = ''.long.'' @ y \<and> fnmatch ''*'' y)))"
    unfolding fnmatch_literal [OF m(1)] fnmatch_star fnmatch_literal [OF m(2)] ..
  also have "\<dots> \<longleftrightarrow> (\<exists>x y. n = (''sub-'' @ subject_label) @ x @ ''.long.'' @ y)"
    using t by blast
  finally show ?thesis by simp
qed

lemma split_join:
  assumes "out \<noteq> []" "last out \<noteq> CHR ''/''" "CHR ''/'' \<notin> set b"
  shows "os_path_split (os_path_join out b) = (out, b)"
proof -
  obtain ys c where o: "out = ys @ [c]" and c: "c \<noteq> CHR ''/''"
    using assms(1,2) by (metis append_butlast_last_id)
  have np: "\<not> prefix ''/'' b" using assms(3) by (cases b) auto
  have j: "os_path_join (ys @ [c]) b = ys @ [c] @ ''/'' @ b"
    using c np by (simp add: os_path_join_def)
  have t: "takeWhile (\<lambda>x. x \<noteq> CHR ''/'') (rev b @ zs) = rev b @ takeWhile (\<lambda>x. x \<noteq> CHR ''/'') zs" for zs
    using assms(3) by (intro takeWhile_append2) auto
  have d: "dropWhile (\<lambda>x. x \<noteq> CHR ''/'') (rev b @ zs) = dropWhile (\<lambda>x. x \<noteq> CHR ''/'') zs" for zs
    using assms(3) by (intro dropWhile_append2) auto
  have "os_path_split (ys @ [c] @ ''/'' @ b) = (ys @ [c], b)"
    using c by (simp add: os_path_split_def Let_def t d)
  then show ?thesis by (simp add: o j)
qed

lemma long_subjects_entries:
  assumes "out \<noteq> []" "last out \<noteq> CHR ''/''"
      and "\<not> has_magic subject_label" "CHR ''/'' \<notin> set subject_label"
  shows "long_subjects tr out subject_label =
           filter (\<lambda>n. \<exists>x y. n = ''sub-'' @ subject_label @ x @ ''.long.'' @ y) (listdir tr out)"
proof -
  have s: "CHR ''/'' \<notin> set (''sub-'' @ subject_label @ ''*.long.*'')"
    using assms(4) by simp
  have h: "\<not> ishidden (''sub-'' @ subject_label @ ''*.long.*'')"
    by (simp add: ishidden_def)
  have n: "\<not> ishidden (''sub-'' @ subject_label @ x @ ''.long.'' @ y)" for x y
    by (simp add: ishidden_def)
  have "long_subjects tr out subject_label
          = filter (\<lambda>n. if ishidden n
                        then ishidden (''sub-'' @ subject_label @ ''*.long.*'')
                             \<and> fnmatch (''sub-'' @ subject_label @ ''*.long.*'') n
                        else fnmatch (''sub-'' @ subject_label @ ''*.long.*'') n) (listdir tr out)"
    unfolding long_subjects_filter split_join [OF assms(1,2) s] by simp
  also have "\<dots> = filter (\<lambda>n. \<exists>x y. n = ''sub-'' @ subject_label @ x @ ''.long.'' @ y) (listdir tr out)"
    unfolding fnmatch_long [OF assms(3)] using h n by (intro filter_cong refl) auto
  finally show ?thesis .
qed

text \<open>
  C4, as the code has it. The output directory is written without a wildcard character
  and without a slash at its end, and the label has no wildcard character and no slash.
  Then the entries found are the entries of the output directory whose name is
  \<^verbatim>\<open>sub-<label>\<close>, any text, \<^verbatim>\<open>.long.\<close>, any text. The discovery returns the part
  before the first \<^verbatim>\<open>.long.\<close> of every such entry, in sorted order, one identifier for
  each entry. The entries are distinct, but nothing removes an identifier that two entries
  share: the list is free of duplicates exactly when no two such entries have the same
  part before \<^verbatim>\<open>.long.\<close>.
\<close>

theorem timepoints_sorted_per_entry:
  assumes "out \<noteq> []" "last out \<noteq> CHR ''/''" "\<not> has_magic out"
      and "\<not> has_magic subject_label" "CHR ''/'' \<notin> set subject_label"
  shows "long_subjects tr out subject_label
           = filter (\<lambda>n. \<exists>x y. n = ''sub-'' @ subject_label @ x @ ''.long.'' @ y) (listdir tr out)
   \<and> find_timepoints tr out subject_label
       = sort (map (split_first ''.long.'')
           (filter (\<lambda>n. \<exists>x y. n = ''sub-'' @ subject_label @ x @ ''.long.'' @ y) (listdir tr out)))
   \<and> sorted (find_timepoints tr out subject_label)
   \<and> length (find_timepoints tr out subject_label) = length (long_subjects tr out subject_label)
   \<and> set (find_timepoints tr out subject_label)
       = split_first ''.long.'' ` set (long_subjects tr out subject_label)
   \<and> distinct (long_subjects tr out subject_label)
   \<and> (distinct (find_timepoints tr out subject_label)
        \<longleftrightarrow> inj_on (split_first ''.long.'') (set (long_subjects tr out subject_label)))"
proof -
  note e = long_subjects_entries [OF assms(1,2,4,5), of tr]
  have "find_timepoints tr out subject_label
       = sort (map (split_first ''.long.'')
           (filter (\<lambda>n. \<exists>x y. n = ''sub-'' @ subject_label @ x @ ''.long.'' @ y) (listdir tr out)))"
    unfolding find_timepoints_def e ..
  moreover have "sorted (find_timepoints tr out subject_label)
   \<and> length (find_timepoints tr out subject_label) = length (long_subjects tr out subject_label)
   \<and> set (find_timepoints tr out subject_label)
       = split_first ''.long.'' ` set (long_subjects tr out subject_label)
   \<and> distinct (long_subjects tr out subject_label)
   \<and> (distinct (find_timepoints tr out subject_label)
        \<longleftrightarrow> inj_on (split_first ''.long.'') (set (long_subjects tr out subject_label)))"
    by (simp add: find_timepoints_def distinct_map distinct_long_subjects)
  ultimately show ?thesis using e by blast
qed

theorem timepoints_sorted_per_entry_witness:
  "''/out'' \<noteq> [] \<and> last ''/out'' \<noteq> CHR ''/'' \<and> \<not> has_magic ''/out''
   \<and> \<not> has_magic ''01'' \<and> CHR ''/'' \<notin> set ''01''
   \<and> listdir [''/out/fsaverage'', ''/out/sub-01_ses-2.long.sub-01/mri'', ''/out/sub-010_ses-1.long.sub-010/mri'',
               ''/out/sub-02_ses-1.long.sub-02/mri'', ''/out/sub-01_ses-1/mri''] ''/out''
       = [''fsaverage'', ''sub-01_ses-2.long.sub-01'', ''sub-010_ses-1.long.sub-010'',
          ''sub-02_ses-1.long.sub-02'', ''sub-01_ses-1'']
   \<and> find_timepoints [''/out/fsaverage'', ''/out/sub-01_ses-2.long.sub-01/mri'', ''/out/sub-010_ses-1.long.sub-010/mri'',
               ''/out/sub-02_ses-1.long.sub-02/mri'', ''/out/sub-01_ses-1/mri''] ''/out'' ''01''
       = [''sub-010_ses-1'', ''sub-01_ses-2'']
   \<and> find_timepoints [''/out/fsaverage'', ''/out/sub-01_ses-2.long.sub-01/mri'', ''/out/sub-010_ses-1.long.sub-010/mri'',
               ''/out/sub-02_ses-1.long.sub-02/mri'', ''/out/sub-01_ses-1/mri''] ''/out'' ''01''
       = sort (map (split_first ''.long.'')
           (filter (\<lambda>n. \<exists>x y. n = ''sub-'' @ ''01'' @ x @ ''.long.'' @ y)
              (listdir [''/out/fsaverage'', ''/out/sub-01_ses-2.long.sub-01/mri'', ''/out/sub-010_ses-1.long.sub-010/mri'',
               ''/out/sub-02_ses-1.long.sub-02/mri'', ''/out/sub-01_ses-1/mri''] ''/out'')))
   \<and> distinct (find_timepoints [''/out/fsaverage'', ''/out/sub-01_ses-2.long.sub-01/mri'', ''/out/sub-010_ses-1.long.sub-010/mri'',
               ''/out/sub-02_ses-1.long.sub-02/mri'', ''/out/sub-01_ses-1/mri''] ''/out'' ''01'')"
proof -
  have h: "''/out'' \<noteq> []" "last ''/out'' \<noteq> CHR ''/''" "\<not> has_magic ''/out''"
       "\<not> has_magic ''01''" "CHR ''/'' \<notin> set ''01''"
    by (simp_all add: has_magic_def)
  have l: "listdir [''/out/fsaverage'', ''/out/sub-01_ses-2.long.sub-01/mri'', ''/out/sub-010_ses-1.long.sub-010/mri'',
               ''/out/sub-02_ses-1.long.sub-02/mri'', ''/out/sub-01_ses-1/mri''] ''/out''
       = [''fsaverage'', ''sub-01_ses-2.long.sub-01'', ''sub-010_ses-1.long.sub-010'',
          ''sub-02_ses-1.long.sub-02'', ''sub-01_ses-1'']"
    by code_simp
  have f: "find_timepoints [''/out/fsaverage'', ''/out/sub-01_ses-2.long.sub-01/mri'', ''/out/sub-010_ses-1.long.sub-010/mri'',
               ''/out/sub-02_ses-1.long.sub-02/mri'', ''/out/sub-01_ses-1/mri''] ''/out'' ''01''
       = [''sub-010_ses-1'', ''sub-01_ses-2'']"
    by code_simp
  have d: "distinct (find_timepoints [''/out/fsaverage'', ''/out/sub-01_ses-2.long.sub-01/mri'', ''/out/sub-010_ses-1.long.sub-010/mri'',
               ''/out/sub-02_ses-1.long.sub-02/mri'', ''/out/sub-01_ses-1/mri''] ''/out'' ''01'')"
    unfolding f by simp
  from timepoints_sorted_per_entry [OF h, of "[''/out/fsaverage'', ''/out/sub-01_ses-2.long.sub-01/mri'', ''/out/sub-010_ses-1.long.sub-010/mri'',
               ''/out/sub-02_ses-1.long.sub-02/mri'', ''/out/sub-01_ses-1/mri'']"]
  have "find_timepoints [''/out/fsaverage'', ''/out/sub-01_ses-2.long.sub-01/mri'', ''/out/sub-010_ses-1.long.sub-010/mri'',
               ''/out/sub-02_ses-1.long.sub-02/mri'', ''/out/sub-01_ses-1/mri''] ''/out'' ''01''
       = sort (map (split_first ''.long.'')
           (filter (\<lambda>n. \<exists>x y. n = ''sub-'' @ ''01'' @ x @ ''.long.'' @ y)
              (listdir [''/out/fsaverage'', ''/out/sub-01_ses-2.long.sub-01/mri'', ''/out/sub-010_ses-1.long.sub-010/mri'',
               ''/out/sub-02_ses-1.long.sub-02/mri'', ''/out/sub-01_ses-1/mri''] ''/out'')))"
    by blast
  with h l f d show ?thesis by blast
qed

text \<open>
  C4 fails as stated: two longitudinal directories of the same timepoint, made against two
  templates, give the same identifier twice.
\<close>

theorem timepoints_duplicate:
  "find_timepoints [''/out/sub-01_ses-1.long.sub-01/mri'', ''/out/sub-01_ses-1.long.sub-01_old/mri'']
       ''/out'' ''01'' = [''sub-01_ses-1'', ''sub-01_ses-1'']
   \<and> \<not> distinct (find_timepoints [''/out/sub-01_ses-1.long.sub-01/mri'',
         ''/out/sub-01_ses-1.long.sub-01_old/mri''] ''/out'' ''01'')"
  by code_simp

section \<open>The directory the completion check looks into\<close>

lemma split_first_sub: "split_first ''.long.'' (''sub-'' @ y) = ''sub-'' @ split_first ''.long.'' y"
  by simp

lemma split_first_ses: "split_first ''.long.'' (''_ses-'' @ y) = ''_ses-'' @ split_first ''.long.'' y"
  by simp

lemma split_first_label:
  assumes "\<not> contains ''.long.'' l"
  shows "split_first ''.long.'' (l @ CHR ''_'' # y) = l @ split_first ''.long.'' (CHR ''_'' # y)"
  using assms
proof (induction l)
  case Nil
  then show ?case by simp
next
  case (Cons c l)
  from Cons.prems have np: "\<not> prefix ''.long.'' (c # l)" and nc: "\<not> contains ''.long.'' l"
    by (auto split: if_splits)
  have "\<not> prefix ''.long.'' ((c # l) @ CHR ''_'' # y)"
  proof
    assume "prefix ''.long.'' ((c # l) @ CHR ''_'' # y)"
    then obtain us where us: "''.long.'' = (c # l) @ us" "prefix us (CHR ''_'' # y)"
      using np unfolding prefix_append by blast
    show False
    proof (cases us)
      case Nil
      then have "c # l = ''.long.''" using us(1) by (metis append_Nil2)
      then have "prefix ''.long.'' (c # l)" by (metis prefix_order.refl)
      then show False using np by blast
    next
      case (Cons u us')
      then have "u = CHR ''_''" using us(2) by simp
      then have m: "CHR ''_'' \<in> set ((c # l) @ us)" using Cons by simp
      have "CHR ''_'' \<in> set ''.long.''" by (subst us(1)) (rule m)
      then show False by simp
    qed
  qed
  then show ?case using Cons.IH [OF nc] by simp
qed

lemma split_first_prefix: "prefix (split_first ''.long.'' (s @ ''.long.'' @ r)) s"
  by (induction s) auto

text \<open>
  C10, as the code has it. For a discovered entry \<open>d\<close> the timepoint is the part of
  \<open>d\<close> before the first \<^verbatim>\<open>.long.\<close>, and the check looks into the \<^verbatim>\<open>surf\<close>
  directory of the name rebuilt from the subject label and the session label parsed from
  the timepoint. For a subject label without \<^verbatim>\<open>.long.\<close> in it, the rebuilt name
  is the entry exactly when the timepoint is \<^verbatim>\<open>sub-<label>_ses-<ses>\<close> with neither
  \<^verbatim>\<open>_\<close> nor \<^verbatim>\<open>-\<close> in \<open>ses\<close> and the entry is the timepoint followed by
  \<^verbatim>\<open>.long.sub-<label>\<close>; for every other entry the check looks into another
  directory.
\<close>

theorem rebuilt_name_iff:
  assumes "\<not> contains ''.long.'' subject_label"
  shows "surf_dir out subject_label (split_first ''.long.'' d) =
           os_path_join (os_path_join out
             (long_name subject_label (tp_label (split_first ''.long.'' d)))) ''surf''
       \<and> (long_name subject_label (tp_label (split_first ''.long.'' d)) = d \<longleftrightarrow>
            (\<exists>ses. CHR ''_'' \<notin> set ses \<and> CHR ''-'' \<notin> set ses
                 \<and> split_first ''.long.'' d = ''sub-'' @ subject_label @ ''_ses-'' @ ses
                 \<and> d = split_first ''.long.'' d @ ''.long.sub-'' @ subject_label))"
proof -
  let ?S = "tp_label (split_first ''.long.'' d)"
  have fwd: "\<exists>ses. CHR ''_'' \<notin> set ses \<and> CHR ''-'' \<notin> set ses
                 \<and> split_first ''.long.'' d = ''sub-'' @ subject_label @ ''_ses-'' @ ses
                 \<and> d = split_first ''.long.'' d @ ''.long.sub-'' @ subject_label"
    if eq: "long_name subject_label ?S = d"
  proof -
    define S where "S = tp_label (split_first ''.long.'' d)"
    define r where "r = ''sub-'' @ subject_label"
    define S1 where "S1 = split_first ''.long.'' (S @ ''.long.'' @ r)"
    have d: "d = ''sub-'' @ subject_label @ CHR ''_'' # (''ses-'' @ S @ ''.long.'' @ r)"
      using eq by (simp add: long_name_def S_def r_def)
    have "split_first ''.long.'' (''sub-'' @ subject_label @ CHR ''_'' # (''ses-'' @ S @ ''.long.'' @ r))
            = ''sub-'' @ subject_label @ ''_ses-'' @ S1"
      unfolding split_first_sub split_first_label [OF assms] S1_def by simp
    then have tp: "split_first ''.long.'' d = ''sub-'' @ subject_label @ ''_ses-'' @ S1"
      unfolding d [symmetric] .
    have clean: "CHR ''_'' \<notin> set S \<and> CHR ''-'' \<notin> set S"
      unfolding S_def by (rule tp_label_clean)
    obtain S2 where S2: "S = S1 @ S2"
      using split_first_prefix [of S r] by (auto simp: prefix_def S1_def)
    then have "set S1 \<subseteq> set S" by simp
    then have clean1: "CHR ''_'' \<notin> set S1" "CHR ''-'' \<notin> set S1" using clean by auto
    have "S = tp_label (''sub-'' @ subject_label @ ''_ses-'' @ S1)"
      unfolding S_def tp ..
    also have "\<dots> = S1" by (rule tp_label_form [OF clean1])
    finally have S: "S1 = S" by simp
    have a: "split_first ''.long.'' d = ''sub-'' @ subject_label @ ''_ses-'' @ S"
      using tp S by simp
    have "d = (''sub-'' @ subject_label @ ''_ses-'' @ S) @ ''.long.sub-'' @ subject_label"
      using d by (simp add: r_def)
    then have b: "d = split_first ''.long.'' d @ ''.long.sub-'' @ subject_label"
      unfolding a [symmetric] .
    from a b clean show ?thesis by blast
  qed
  have bwd: "long_name subject_label ?S = d"
    if "\<exists>ses. CHR ''_'' \<notin> set ses \<and> CHR ''-'' \<notin> set ses
                 \<and> split_first ''.long.'' d = ''sub-'' @ subject_label @ ''_ses-'' @ ses
                 \<and> d = split_first ''.long.'' d @ ''.long.sub-'' @ subject_label"
  proof -
    from that obtain ses where c: "CHR ''_'' \<notin> set ses" "CHR ''-'' \<notin> set ses"
      and tp: "split_first ''.long.'' d = ''sub-'' @ subject_label @ ''_ses-'' @ ses"
      and d: "d = split_first ''.long.'' d @ ''.long.sub-'' @ subject_label" by blast
    have "?S = ses" unfolding tp by (rule tp_label_form [OF c])
    then have "long_name subject_label ?S = (''sub-'' @ subject_label @ ''_ses-'' @ ses) @ ''.long.sub-'' @ subject_label"
      by (simp add: long_name_def)
    also have "\<dots> = d" using d tp by simp
    finally show ?thesis .
  qed
  from fwd bwd show ?thesis unfolding surf_dir_def by blast
qed

theorem rebuilt_name_iff_witness:
  "\<not> contains ''.long.'' ''01''
   \<and> long_name ''01'' (tp_label (split_first ''.long.'' ''sub-01_ses-1.long.sub-01''))
       = ''sub-01_ses-1.long.sub-01''
   \<and> (\<exists>ses. CHR ''_'' \<notin> set ses \<and> CHR ''-'' \<notin> set ses
          \<and> split_first ''.long.'' ''sub-01_ses-1.long.sub-01'' = ''sub-'' @ ''01'' @ ''_ses-'' @ ses
          \<and> ''sub-01_ses-1.long.sub-01''
              = split_first ''.long.'' ''sub-01_ses-1.long.sub-01'' @ ''.long.sub-'' @ ''01'')"
proof -
  have h: "\<not> contains ''.long.'' ''01''" by simp
  have e: "long_name ''01'' (tp_label (split_first ''.long.'' ''sub-01_ses-1.long.sub-01''))
       = ''sub-01_ses-1.long.sub-01''"
    by code_simp
  from rebuilt_name_iff [OF h, of "''/out''" "''sub-01_ses-1.long.sub-01''"] e h
  show ?thesis by blast
qed

text \<open>
  C10 fails as stated. Both entries below have a timepoint of the form
  \<^verbatim>\<open>sub-01_ses-<ses>\<close>, and for both the rebuilt name is another directory: the
  first entry does not end in \<^verbatim>\<open>.long.sub-01\<close>, and the session label of the second
  has a hyphen, of which the code keeps what follows.
\<close>

theorem rebuilt_name_differs:
  "long_subjects [''/out/sub-01_ses-1.long.sub-01_old/mri'', ''/out/sub-01_ses-pre-op.long.sub-01/mri'']
       ''/out'' ''01'' = [''sub-01_ses-1.long.sub-01_old'', ''sub-01_ses-pre-op.long.sub-01'']
   \<and> split_first ''.long.'' ''sub-01_ses-1.long.sub-01_old'' = ''sub-01_ses-1''
   \<and> long_name ''01'' (tp_label (split_first ''.long.'' ''sub-01_ses-1.long.sub-01_old''))
       = ''sub-01_ses-1.long.sub-01''
   \<and> split_first ''.long.'' ''sub-01_ses-pre-op.long.sub-01'' = ''sub-01_ses-pre-op''
   \<and> long_name ''01'' (tp_label (split_first ''.long.'' ''sub-01_ses-pre-op.long.sub-01''))
       = ''sub-01_ses-op.long.sub-01''"
  by code_simp

end

